theory Spec2Isabelle
  imports Complex_Main "HOL-Library.Multiset"
begin

section \<open>The by-hand cross-validation cells of lect10-examples/cross-validation.ipynb\<close>

text \<open>
  The notebook has two hand-written routines: cell \<open>f6eda8ee\<close> (k-fold cross-validation
  of a linear regression) and cell \<open>f306f94d\<close> (a search over neighbourhood sizes for
  kNN). Both are straight-line scripts over the globals \<open>X\<close>, \<open>y\<close>; here every global
  and every literal the cells fix (\<open>n_folds = 10\<close>, the candidate list, the seeded
  generator) is a parameter of the function that models the cell.

  Python exceptions are values of type \<open>error\<close>, a computation that can raise has the
  type \<open>error + 'a\<close>. The first three constructors are exceptions that the cells can
  raise. The last three are the names the specification uses; no line of the notebook
  raises them, they are here so that statements about them can be written down.
\<close>

datatype error =
    ZeroDivisionError
  | IndexError
  | ValueError
  | ConfigurationError
  | EmptyPartitionError
  | EmptyCandidateListError

text \<open>
  Scores are numpy \<open>float64\<close> values. A finite value is the real number it stands
  for; \<open>NaN\<close> is kept, since \<open>np.mean\<close> of an empty list is NaN and \<open>np.argmax\<close>
  treats NaN specially. Comparing two floats is exact. Adding, dividing and rounding
  them is not: float64 rounds every result, and that rounding is not modelled. So no
  general statement below is about the digits of a mean; where the number that a cell
  prints is the subject, numpy's mean and round are parameters, and the examples use
  values on which float64 is exact.
\<close>

datatype npfloat = Fin real | NaN

subsection \<open>Fold construction (lines 62-64 and 229-231)\<close>

text \<open>\<^verbatim>\<open>range(n)\<close> for a Python int: empty when \<open>n \<le> 0\<close>.\<close>

definition py_range :: "int \<Rightarrow> int list" where
  "py_range n = map int [0..<nat n]"

text \<open>
  \<^verbatim>\<open>fold = np.array([ i % n_folds for i in range(len(X)) ])\<close>

  Python's \<open>%\<close> on ints takes the sign of the divisor, as \<open>mod\<close> on \<open>int\<close> does, and
  raises ZeroDivisionError for a zero divisor (HOL's \<open>i mod 0\<close> is \<open>i\<close>). With no
  instance the comprehension evaluates \<open>%\<close> not even once.
\<close>

definition fold_labels :: "nat \<Rightarrow> int \<Rightarrow> error + int list" where
  "fold_labels len_X n_folds =
     (if n_folds = 0 \<and> 0 < len_X then Inl ZeroDivisionError
      else Inr (map (\<lambda>i. int i mod n_folds) [0..<len_X]))"

text \<open>
  \<^verbatim>\<open>rng.shuffle(fold)\<close> rearranges the array in place. The generator belongs to numpy;
  it is the parameter \<open>shuffle\<close>, and what is known of it (the result is a rearrangement
  of the argument) is a hypothesis wherever it is needed.
\<close>

definition is_shuffle :: "(int list \<Rightarrow> int list) \<Rightarrow> bool" where
  "is_shuffle shuffle = (\<forall>xs. mset (shuffle xs) = mset xs)"

definition fold_assignment :: "(int list \<Rightarrow> int list) \<Rightarrow> nat \<Rightarrow> int \<Rightarrow> error + int list" where
  "fold_assignment shuffle len_X n_folds =
     (case fold_labels len_X n_folds of
        Inl e \<Rightarrow> Inl e
      | Inr folds \<Rightarrow> Inr (shuffle folds))"

subsection \<open>Splitting the data by fold (lines 70 and 241)\<close>

text \<open>
  \<^verbatim>\<open>np.where(fold == i)\<close> and \<^verbatim>\<open>np.where(fold != i)\<close>: the positions of the array, in
  increasing order, at which the comparison holds.
\<close>

definition where_eq :: "int list \<Rightarrow> int \<Rightarrow> nat list" where
  "where_eq folds i = filter (\<lambda>j. folds ! j = i) [0..<length folds]"

definition where_ne :: "int list \<Rightarrow> int \<Rightarrow> nat list" where
  "where_ne folds i = filter (\<lambda>j. folds ! j \<noteq> i) [0..<length folds]"

text \<open>
  \<^verbatim>\<open>X[idx]\<close> with an array of positions: the rows at these positions, in the order of
  \<open>idx\<close>; a position beyond the last row raises IndexError.
\<close>

definition take_rows :: "'a list \<Rightarrow> nat list \<Rightarrow> error + 'a list" where
  "take_rows X idx =
     (if list_all (\<lambda>j. j < length X) idx then Inr (map (\<lambda>j. X ! j) idx)
      else Inl IndexError)"

text \<open>
  \<^verbatim>\<open>X_train, X_test, y_train, y_test = X[np.where(fold != i)], X[np.where(fold == i)],
       y[np.where(fold != i)], y[np.where(fold == i)]\<close>, evaluated left to right.
\<close>

definition split_fold ::
  "'x list \<Rightarrow> 'y list \<Rightarrow> int list \<Rightarrow> int \<Rightarrow> error + ('x list \<times> 'x list \<times> 'y list \<times> 'y list)" where
  "split_fold X y folds i =
     (case take_rows X (where_ne folds i) of Inl e \<Rightarrow> Inl e | Inr X_train \<Rightarrow>
      case take_rows X (where_eq folds i) of Inl e \<Rightarrow> Inl e | Inr X_test \<Rightarrow>
      case take_rows y (where_ne folds i) of Inl e \<Rightarrow> Inl e | Inr y_train \<Rightarrow>
      case take_rows y (where_eq folds i) of Inl e \<Rightarrow> Inl e | Inr y_test \<Rightarrow>
        Inr (X_train, X_test, y_train, y_test))"

subsection \<open>The library objects\<close>

text \<open>
  The learners and the scaler are scikit-learn objects; the notebook only constructs
  them and calls \<open>fit\<close>, \<open>score\<close>, \<open>fit_transform\<close> and \<open>transform\<close>. They are
  parameters: a record of the operations the cells call, over an abstract type of object
  states. Every call may raise. \<open>fit\<close> and \<open>fit_transform\<close> change the object they
  are called on, so they take its state and return the new one.

  \<open>est_new p\<close> is the constructor call (\<^verbatim>\<open>LinearRegression()\<close>, with \<open>p = ()\<close>, or
  \<^verbatim>\<open>KNeighborsRegressor(n_neighbors=k)\<close>, with \<open>p = k\<close>) and \<open>sc_new\<close> is
  \<^verbatim>\<open>StandardScaler()\<close>.
\<close>

record ('p, 'x, 'y, 'm) estimator =
  est_new :: "'p \<Rightarrow> 'm"
  est_fit :: "'m \<Rightarrow> 'x list \<Rightarrow> 'y list \<Rightarrow> error + 'm"
  est_score :: "'m \<Rightarrow> 'x list \<Rightarrow> 'y list \<Rightarrow> error + npfloat"

record ('x, 'z, 's) scaler =
  sc_new :: "'s"
  sc_fit_transform :: "'s \<Rightarrow> 'x list \<Rightarrow> error + ('s \<times> 'z list)"
  sc_transform :: "'s \<Rightarrow> 'x list \<Rightarrow> error + 'z list"

subsection \<open>The numpy functions on scores\<close>

fun np_add :: "npfloat \<Rightarrow> npfloat \<Rightarrow> npfloat" where
  "np_add (Fin a) (Fin b) = Fin (a + b)"
| "np_add _ _ = NaN"

fun np_sum :: "npfloat list \<Rightarrow> npfloat" where
  "np_sum [] = Fin 0"
| "np_sum (x # xs) = np_add x (np_sum xs)"

fun np_div_count :: "npfloat \<Rightarrow> nat \<Rightarrow> npfloat" where
  "np_div_count (Fin a) n = Fin (a / real n)"
| "np_div_count NaN n = NaN"

text \<open>
  \<^verbatim>\<open>np.mean(perf)\<close>: the sum over the count, in exact arithmetic (numpy's differs
  from it by the rounding of float64 and agrees with it where the float64 operations are
  exact); of an empty list it is NaN (numpy warns and raises nothing), and a NaN among
  the values makes it NaN.
\<close>

definition np_mean :: "npfloat list \<Rightarrow> npfloat" where
  "np_mean perf = (if perf = [] then NaN else np_div_count (np_sum perf) (length perf))"

text \<open>Rounding to the nearest integer, a tie to the even one, as numpy rounds.\<close>

definition rint :: "real \<Rightarrow> int" where
  "rint r =
     (let f = \<lfloor>r\<rfloor>; d = r - of_int f
      in if d < 1 / 2 then f else if 1 / 2 < d then f + 1
         else if even f then f else f + 1)"

text \<open>
  \<^verbatim>\<open>np.round(x, decimals)\<close>: scale, round to the nearest integer, scale back, in exact
  arithmetic (numpy scales in float64, so the two agree where \<open>x * 10 ^ decimals\<close> is
  exact in float64).
\<close>

fun np_round :: "npfloat \<Rightarrow> nat \<Rightarrow> npfloat" where
  "np_round (Fin r) decimals = Fin (of_int (rint (r * 10 ^ decimals)) / 10 ^ decimals)"
| "np_round NaN decimals = NaN"

text \<open>
  \<^verbatim>\<open>np.argmax\<close> on a list of floats: ValueError on an empty list; otherwise one pass
  that keeps the first position of the largest value seen and moves on only for an
  element that is not \<open>\<le>\<close> the kept one. Every comparison with NaN is false, so the
  pass moves to the first NaN and stops there.
\<close>

fun np_le :: "npfloat \<Rightarrow> npfloat \<Rightarrow> bool" where
  "np_le (Fin a) (Fin b) = (a \<le> b)"
| "np_le _ _ = False"

fun argmax_loop :: "npfloat list \<Rightarrow> nat \<Rightarrow> npfloat \<Rightarrow> nat \<Rightarrow> nat" where
  "argmax_loop [] i mp max_ind = max_ind"
| "argmax_loop (x # xs) i mp max_ind =
     (if \<not> np_le x mp then (if x = NaN then i else argmax_loop xs (Suc i) x i)
      else argmax_loop xs (Suc i) mp max_ind)"

definition np_argmax :: "npfloat list \<Rightarrow> error + nat" where
  "np_argmax xs =
     (case xs of
        [] \<Rightarrow> Inl ValueError
      | x # rest \<Rightarrow> if x = NaN then Inr 0 else Inr (argmax_loop rest 1 x 0))"

text \<open>\<^verbatim>\<open>xs[i]\<close> on a Python list with a non-negative index.\<close>

definition py_index :: "'a list \<Rightarrow> nat \<Rightarrow> error + 'a" where
  "py_index xs i = (if i < length xs then Inr (xs ! i) else Inl IndexError)"

subsection \<open>Cell f6eda8ee: cross-validation by hand (lines 57-77)\<close>

text \<open>
  The loop of lines 67-74, over the remaining fold ids and with the list \<open>perf\<close>
  collected so far:
  \<^verbatim>\<open>
  perf = []
  for i in range(n_folds):
      X_train, X_test, y_train, y_test = ...
      mdl = LinearRegression().fit(X_train, y_train)
      perf.append(mdl.score(X_test, y_test))
  \<close>
\<close>

fun cv_loop ::
  "(unit, 'x, 'y, 'm) estimator \<Rightarrow> 'x list \<Rightarrow> 'y list \<Rightarrow> int list \<Rightarrow> int list \<Rightarrow>
   npfloat list \<Rightarrow> error + npfloat list" where
  "cv_loop E X y folds [] perf = Inr perf"
| "cv_loop E X y folds (i # rest) perf =
     (case split_fold X y folds i of Inl e \<Rightarrow> Inl e
      | Inr (X_train, X_test, y_train, y_test) \<Rightarrow>
     (case est_fit E (est_new E ()) X_train y_train of Inl e \<Rightarrow> Inl e
      | Inr mdl \<Rightarrow>
     (case est_score E mdl X_test y_test of Inl e \<Rightarrow> Inl e
      | Inr s \<Rightarrow> cv_loop E X y folds rest (perf @ [s]))))"

text \<open>
  The whole cell: the folds, the loop, and the report of line 77, which prints
  \<^verbatim>\<open>np.round(np.mean(perf), 3)\<close> and nothing else. The result holds the list \<open>perf\<close>,
  which stays in the notebook's namespace, and the number printed. numpy's two functions
  are the parameters \<open>lib_mean\<close> and \<open>lib_round\<close>.
\<close>

record cv_result =
  cv_perf :: "npfloat list"
  cv_printed :: npfloat

definition cross_validation_with ::
  "(npfloat list \<Rightarrow> npfloat) \<Rightarrow> (npfloat \<Rightarrow> nat \<Rightarrow> npfloat) \<Rightarrow> (int list \<Rightarrow> int list) \<Rightarrow>
   (unit, 'x, 'y, 'm) estimator \<Rightarrow> 'x list \<Rightarrow> 'y list \<Rightarrow> int \<Rightarrow> error + cv_result" where
  "cross_validation_with lib_mean lib_round shuffle E X y n_folds =
     (case fold_assignment shuffle (length X) n_folds of Inl e \<Rightarrow> Inl e
      | Inr folds \<Rightarrow>
     (case cv_loop E X y folds (py_range n_folds) [] of Inl e \<Rightarrow> Inl e
      | Inr perf \<Rightarrow> Inr \<lparr>cv_perf = perf, cv_printed = lib_round (lib_mean perf) 3\<rparr>))"

text \<open>The cell with the mean and the rounding of exact arithmetic.\<close>

definition cross_validation ::
  "(int list \<Rightarrow> int list) \<Rightarrow> (unit, 'x, 'y, 'm) estimator \<Rightarrow> 'x list \<Rightarrow> 'y list \<Rightarrow> int \<Rightarrow>
   error + cv_result" where
  "cross_validation shuffle E X y n_folds =
     cross_validation_with np_mean np_round shuffle E X y n_folds"

subsection \<open>Cell f306f94d: the search over neighbourhood sizes (lines 217-256)\<close>

text \<open>
  The inner loop (lines 238-247) for the candidate \<open>k\<close>. The scaler is the one object
  made at line 234, before both loops: its state \<open>sc\<close> goes into every iteration and
  comes out of it changed by \<open>fit_transform\<close>.
  \<^verbatim>\<open>
  for i in range(n_folds):
      X_train, X_test, y_train, y_test = ...
      Z_train, Z_test = scaler.fit_transform(X_train), scaler.transform(X_test)
      mdl = KNeighborsRegressor(n_neighbors=k).fit(Z_train, y_train)
      perf.append(mdl.score(Z_test, y_test))
  \<close>
\<close>

fun fold_loop ::
  "('x, 'z, 's) scaler \<Rightarrow> (int, 'z, 'y, 'm) estimator \<Rightarrow> 'x list \<Rightarrow> 'y list \<Rightarrow> int list \<Rightarrow>
   int \<Rightarrow> 's \<Rightarrow> int list \<Rightarrow> npfloat list \<Rightarrow> error + ('s \<times> npfloat list)" where
  "fold_loop S E X y folds k sc [] perf = Inr (sc, perf)"
| "fold_loop S E X y folds k sc (i # rest) perf =
     (case split_fold X y folds i of Inl e \<Rightarrow> Inl e
      | Inr (X_train, X_test, y_train, y_test) \<Rightarrow>
     (case sc_fit_transform S sc X_train of Inl e \<Rightarrow> Inl e
      | Inr (sc', Z_train) \<Rightarrow>
     (case sc_transform S sc' X_test of Inl e \<Rightarrow> Inl e
      | Inr Z_test \<Rightarrow>
     (case est_fit E (est_new E k) Z_train y_train of Inl e \<Rightarrow> Inl e
      | Inr mdl \<Rightarrow>
     (case est_score E mdl Z_test y_test of Inl e \<Rightarrow> Inl e
      | Inr s \<Rightarrow> fold_loop S E X y folds k sc' rest (perf @ [s]))))))"

text \<open>
  The outer loop (lines 235-248) over the remaining candidates:
  \<^verbatim>\<open>
  neighbourhood_perf = []
  for i, k in enumerate(candidate_neighbourhoods):
      perf = []
      ... inner loop ...
      neighbourhood_perf.append(np.mean(perf))
  \<close>
  (the inner loop reuses the name \<open>i\<close>; the outer \<open>i\<close> is read nowhere).
\<close>

fun candidate_loop ::
  "('x, 'z, 's) scaler \<Rightarrow> (int, 'z, 'y, 'm) estimator \<Rightarrow> 'x list \<Rightarrow> 'y list \<Rightarrow> int list \<Rightarrow>
   int \<Rightarrow> 's \<Rightarrow> int list \<Rightarrow> npfloat list \<Rightarrow> error + ('s \<times> npfloat list)" where
  "candidate_loop S E X y folds n_folds sc [] neighbourhood_perf = Inr (sc, neighbourhood_perf)"
| "candidate_loop S E X y folds n_folds sc (k # rest) neighbourhood_perf =
     (case fold_loop S E X y folds k sc (py_range n_folds) [] of Inl e \<Rightarrow> Inl e
      | Inr (sc', perf) \<Rightarrow>
          candidate_loop S E X y folds n_folds sc' rest (neighbourhood_perf @ [np_mean perf]))"

text \<open>
  What the cell leaves behind: the position chosen, the candidate and the mean score at
  that position, the mean score of every candidate, and the number line 256 prints.
\<close>

record search_result =
  best_neighbourhood :: nat
  best_k :: int
  best_perf :: npfloat
  neighbourhood_perf :: "npfloat list"
  printed_perf :: npfloat

text \<open>
  The whole cell. The folds are made at lines 229-231, the scaler at line 234, then the
  loops run, and lines 251-253 choose:
  \<^verbatim>\<open>
  best_neighbourhood = np.argmax(neighbourhood_perf)
  best_k = candidate_neighbourhoods[best_neighbourhood]
  best_perf = neighbourhood_perf[best_neighbourhood]
  \<close>
\<close>

definition hyperparameter_search ::
  "(int list \<Rightarrow> int list) \<Rightarrow> ('x, 'z, 's) scaler \<Rightarrow> (int, 'z, 'y, 'm) estimator \<Rightarrow>
   'x list \<Rightarrow> 'y list \<Rightarrow> int \<Rightarrow> int list \<Rightarrow> error + search_result" where
  "hyperparameter_search shuffle S E X y n_folds candidate_neighbourhoods =
     (case fold_assignment shuffle (length X) n_folds of Inl e \<Rightarrow> Inl e
      | Inr folds \<Rightarrow>
     (case candidate_loop S E X y folds n_folds (sc_new S) candidate_neighbourhoods [] of
        Inl e \<Rightarrow> Inl e
      | Inr (sc, nperf) \<Rightarrow>
     (case np_argmax nperf of Inl e \<Rightarrow> Inl e
      | Inr b \<Rightarrow>
     (case py_index candidate_neighbourhoods b of Inl e \<Rightarrow> Inl e
      | Inr bk \<Rightarrow>
     (case py_index nperf b of Inl e \<Rightarrow> Inl e
      | Inr bp \<Rightarrow>
          Inr \<lparr>best_neighbourhood = b, best_k = bk, best_perf = bp,
               neighbourhood_perf = nperf, printed_perf = np_round bp 3\<rparr>)))))"

section \<open>What the specification says, as predicates\<close>

text \<open>
  The invariant of a fold assignment for \<open>len_X\<close> instances and \<open>n_folds\<close> folds: one
  label per instance, every label a fold id in \<open>0..n_folds-1\<close>, every fold id used, and
  no fold larger than another by more than one instance. The size of fold \<open>f\<close> is the
  number of rows that \<^verbatim>\<open>np.where(fold == f)\<close> selects.
\<close>

definition fold_invariant :: "int list \<Rightarrow> nat \<Rightarrow> int \<Rightarrow> bool" where
  "fold_invariant folds len_X n_folds =
     (length folds = len_X \<and>
      list_all (\<lambda>l. l \<in> set (py_range n_folds)) folds \<and>
      list_all (\<lambda>f. 1 \<le> length (where_eq folds f)) (py_range n_folds) \<and>
      list_all (\<lambda>f. list_all (\<lambda>g. length (where_eq folds f) \<le> length (where_eq folds g) + 1)
         (py_range n_folds)) (py_range n_folds))"

text \<open>
  The rows of a fold, read off the labels with no positions involved: the test rows of
  fold \<open>f\<close> are the rows whose label is \<open>f\<close>, the training rows are all the others, in
  the order of the data.
\<close>

definition rows_eq :: "'a list \<Rightarrow> int list \<Rightarrow> int \<Rightarrow> 'a list" where
  "rows_eq X folds f = map fst (filter (\<lambda>p. snd p = f) (zip X folds))"

definition rows_ne :: "'a list \<Rightarrow> int list \<Rightarrow> int \<Rightarrow> 'a list" where
  "rows_ne X folds f = map fst (filter (\<lambda>p. snd p \<noteq> f) (zip X folds))"

text \<open>Running a fallible step over a list, stopping at the first error.\<close>

fun mapM_err :: "('a \<Rightarrow> error + 'b) \<Rightarrow> 'a list \<Rightarrow> error + 'b list" where
  "mapM_err g [] = Inr []"
| "mapM_err g (x # xs) =
     (case g x of Inl e \<Rightarrow> Inl e
      | Inr v \<Rightarrow> (case mapM_err g xs of Inl e \<Rightarrow> Inl e | Inr vs \<Rightarrow> Inr (v # vs)))"

text \<open>
  The score record of fold \<open>f\<close> as section 4.2 describes it: a predictor fresh from its
  constructor, fitted on the training rows of \<open>f\<close> only, scored on the test rows of \<open>f\<close>.
\<close>

definition cv_fold_score ::
  "(unit, 'x, 'y, 'm) estimator \<Rightarrow> 'x list \<Rightarrow> 'y list \<Rightarrow> int list \<Rightarrow> int \<Rightarrow> error + npfloat" where
  "cv_fold_score E X y folds f =
     (case est_fit E (est_new E ()) (rows_ne X folds f) (rows_ne y folds f) of
        Inl e \<Rightarrow> Inl e
      | Inr mdl \<Rightarrow> est_score E mdl (rows_eq X folds f) (rows_eq y folds f))"

text \<open>
  The standard deviation of section 4.2's aggregation (of the values around their mean,
  as \<open>np.std\<close> computes it). The notebook computes none.
\<close>

definition std_dev :: "real list \<Rightarrow> real" where
  "std_dev xs =
     (let m = sum_list xs / real (length xs)
      in sqrt (sum_list (map (\<lambda>x. (x - m)\<^sup>2) xs) / real (length xs)))"

text \<open>
  What is known of \<open>StandardScaler.fit_transform\<close>: it forgets what the scaler was
  fitted on before and fits anew, so its outcome does not depend on the state of the
  scaler it is called on. The scaler is a parameter, so this is a hypothesis of the
  statements that need it.
\<close>

definition scaler_refits :: "('x, 'z, 's) scaler \<Rightarrow> bool" where
  "scaler_refits S = (\<forall>s s' X. sc_fit_transform S s X = sc_fit_transform S s' X)"

text \<open>The outcome of a loop of the search without the state of the scaler it ends in.\<close>

fun drop_state :: "error + ('s \<times> 'a) \<Rightarrow> error + 'a" where
  "drop_state (Inl e) = Inl e"
| "drop_state (Inr (sc, v)) = Inr v"

text \<open>
  The score of candidate \<open>k\<close> on fold \<open>f\<close> with no leakage: a scaler fresh from its
  constructor is fitted on the training rows of \<open>f\<close> and nothing else, the test rows of
  \<open>f\<close> are transformed by that scaler, and a fresh learner for \<open>k\<close> is fitted and scored
  on the transformed rows.
\<close>

definition search_fold_score ::
  "('x, 'z, 's) scaler \<Rightarrow> (int, 'z, 'y, 'm) estimator \<Rightarrow> 'x list \<Rightarrow> 'y list \<Rightarrow> int list \<Rightarrow>
   int \<Rightarrow> int \<Rightarrow> error + npfloat" where
  "search_fold_score S E X y folds k f =
     (case sc_fit_transform S (sc_new S) (rows_ne X folds f) of Inl e \<Rightarrow> Inl e
      | Inr (sc, Z_train) \<Rightarrow>
     (case sc_transform S sc (rows_eq X folds f) of Inl e \<Rightarrow> Inl e
      | Inr Z_test \<Rightarrow>
     (case est_fit E (est_new E k) Z_train (rows_ne y folds f) of Inl e \<Rightarrow> Inl e
      | Inr mdl \<Rightarrow> est_score E mdl Z_test (rows_eq y folds f))))"

text \<open>The aggregate score of candidate \<open>k\<close>: the mean of its scores over the folds.\<close>

definition candidate_score ::
  "('x, 'z, 's) scaler \<Rightarrow> (int, 'z, 'y, 'm) estimator \<Rightarrow> 'x list \<Rightarrow> 'y list \<Rightarrow> int list \<Rightarrow>
   int \<Rightarrow> int \<Rightarrow> error + npfloat" where
  "candidate_score S E X y folds n_folds k =
     (case mapM_err (search_fold_score S E X y folds k) (py_range n_folds) of
        Inl e \<Rightarrow> Inl e
      | Inr perf \<Rightarrow> Inr (np_mean perf))"

text \<open>
  The selection rule of section 4.3, with the direction as an option: the first position
  of the largest aggregate score when higher is better, of the smallest when lower is
  better, and EmptyCandidateListError for no candidate.
\<close>

datatype direction = HigherIsBetter | LowerIsBetter

definition spec_select :: "direction \<Rightarrow> real list \<Rightarrow> error + nat" where
  "spec_select d scores =
     (if scores = [] then Inl EmptyCandidateListError
      else let best = (case d of HigherIsBetter \<Rightarrow> Max (set scores)
                               | LowerIsBetter \<Rightarrow> Min (set scores))
           in Inr (length (takeWhile (\<lambda>s. s \<noteq> best) scores)))"

text \<open>
  Position \<open>b\<close> holds the first maximum of \<open>xs\<close>, as numpy ranks floats: with no NaN
  in \<open>xs\<close>, every value is \<open>\<le>\<close> the one at \<open>b\<close> and no value before \<open>b\<close> is as large;
  with a NaN in \<open>xs\<close>, \<open>b\<close> is the position of the first NaN.
\<close>

definition is_argmax :: "npfloat list \<Rightarrow> nat \<Rightarrow> bool" where
  "is_argmax xs b =
     (b < length xs \<and>
      (if NaN \<in> set xs then xs ! b = NaN \<and> NaN \<notin> set (take b xs)
       else list_all (\<lambda>v. np_le v (xs ! b)) xs \<and>
            list_all (\<lambda>v. \<not> np_le (xs ! b) v) (take b xs)))"

subsection \<open>Library objects for the examples\<close>

text \<open>
  A learner in the manner of scikit-learn's: \<open>fit\<close> and \<open>score\<close> raise ValueError on
  an array with no rows; the model is the number of rows it was fitted on; the score is
  the mean of the test targets.
\<close>

definition strict_estimator :: "('p, int, real, nat) estimator" where
  "strict_estimator =
     \<lparr>est_new = (\<lambda>p. 0),
      est_fit = (\<lambda>m X y. if X = [] then Inl ValueError else Inr (length X)),
      est_score = (\<lambda>m X y. if X = [] then Inl ValueError else Inr (np_mean (map Fin y)))\<rparr>"

text \<open>A learner that accepts every array, also one with no rows.\<close>

definition lenient_estimator :: "('p, int, real, nat) estimator" where
  "lenient_estimator =
     \<lparr>est_new = (\<lambda>p. 0),
      est_fit = (\<lambda>m X y. Inr (length X)),
      est_score = (\<lambda>m X y. Inr (Fin (real (length X))))\<rparr>"

text \<open>
  A scaler that centres one numeric column: fitting stores the mean of the rows it is
  given, whatever it stored before; both calls raise ValueError on an array with no rows.
\<close>

definition centering_scaler :: "(real, real, real) scaler" where
  "centering_scaler =
     \<lparr>sc_new = 0,
      sc_fit_transform = (\<lambda>s X. if X = [] then Inl ValueError
         else let m = sum_list X / real (length X) in Inr (m, map (\<lambda>x. x - m) X)),
      sc_transform = (\<lambda>s X. if X = [] then Inl ValueError else Inr (map (\<lambda>x. x - s) X))\<rparr>"

text \<open>
  A learner with a neighbourhood size: the model is the size \<open>k\<close>; \<open>fit\<close> raises
  ValueError on no rows and on fewer rows than \<open>k\<close>; the score is the sum of the test
  rows less \<open>k\<close>.
\<close>

definition toy_knn :: "(int, real, 'y, int) estimator" where
  "toy_knn =
     \<lparr>est_new = (\<lambda>k. k),
      est_fit = (\<lambda>m Z y. if Z = [] \<or> int (length Z) < m then Inl ValueError else Inr m),
      est_score = (\<lambda>m Z y. if Z = [] then Inl ValueError
         else Inr (Fin (sum_list Z - real_of_int m)))\<rparr>"

section \<open>The fold assigner\<close>

subsection \<open>Fold sizes\<close>

lemma count_mod:
  assumes "0 < K" "f < K"
  shows "length (filter (\<lambda>i. i mod K = f) [0..<N]) = N div K + (if f < N mod K then 1 else 0)"
proof (induction N)
  case 0
  then show ?case by simp
next
  case (Suc N)
  show ?case
  proof (cases "Suc (N mod K) = K")
    case True
    then have "Suc N mod K = 0" "Suc N div K = Suc (N div K)"
      by (simp_all add: mod_Suc div_Suc)
    with True Suc assms show ?thesis by auto
  next
    case False
    then have "Suc N mod K = Suc (N mod K)" "Suc N div K = N div K"
      by (simp_all add: mod_Suc div_Suc)
    with False Suc assms show ?thesis by auto
  qed
qed

lemma length_where_eq: "length (where_eq folds f) = count_list folds f"
proof -
  have c: "((=) f \<circ> (!) folds) = (\<lambda>j. folds ! j = f)"
    by (rule ext) auto
  have "count_list folds f = length (filter ((=) f) (map ((!) folds) [0..<length folds]))"
    by (simp only: count_list_eq_length_filter map_nth)
  also have "\<dots> = length (filter (\<lambda>j. folds ! j = f) [0..<length folds])"
    by (simp only: length_filter_map c)
  finally show ?thesis by (simp add: where_eq_def)
qed

lemma is_shuffle_count: "is_shuffle shuffle \<Longrightarrow> count_list (shuffle xs) f = count_list xs f"
  by (metis count_mset is_shuffle_def)

lemma is_shuffle_length: "is_shuffle shuffle \<Longrightarrow> length (shuffle xs) = length xs"
  by (metis size_mset is_shuffle_def)

lemma is_shuffle_set: "is_shuffle shuffle \<Longrightarrow> set (shuffle xs) = set xs"
  by (metis set_mset_mset is_shuffle_def)

lemma is_shuffle_rev: "is_shuffle rev"
  by (simp add: is_shuffle_def)

lemma py_range_iff: "f \<in> set (py_range K) \<longleftrightarrow> 0 \<le> f \<and> f < K"
  unfolding py_range_def by (auto simp: image_iff intro: bexI[of _ "nat f"])

lemma labels_size:
  assumes "0 < K" "0 \<le> f" "f < K"
  shows "count_list (map (\<lambda>i. int i mod K) [0..<N]) f =
         N div nat K + (if nat f < N mod nat K then 1 else 0)"
proof -
  have eq: "(f = int i mod K) = (i mod nat K = nat f)" for i
  proof -
    have "int i mod K = int (i mod nat K)"
      using assms(1) by (simp add: zmod_int)
    then show ?thesis using assms(2) by auto
  qed
  have c: "((=) f \<circ> (\<lambda>i. int i mod K)) = (\<lambda>i. i mod nat K = nat f)"
    by (rule ext) (simp add: eq)
  have "count_list (map (\<lambda>i. int i mod K) [0..<N]) f =
        length (filter (\<lambda>i. i mod nat K = nat f) [0..<N])"
    by (simp only: count_list_eq_length_filter length_filter_map c)
  also have "\<dots> = N div nat K + (if nat f < N mod nat K then 1 else 0)"
    using assms by (intro count_mod) auto
  finally show ?thesis .
qed

lemma labels_invariant:
  assumes "2 \<le> K" "K \<le> int N"
  shows "fold_invariant (map (\<lambda>i. int i mod K) [0..<N]) N K"
proof -
  let ?l = "map (\<lambda>i. int i mod K) [0..<N]"
  have pos: "0 < K" using assms by simp
  have "nat K \<le> N" "0 < nat K" using assms by auto
  then have big: "1 \<le> N div nat K"
    by (simp add: Suc_leI div_greater_zero_iff)
  have a: "length ?l = N" by simp
  have b: "l \<in> set (py_range K)" if "l \<in> set ?l" for l
    using that pos by (auto simp: py_range_iff)
  have c: "1 \<le> length (where_eq ?l f)" if "f \<in> set (py_range K)" for f
    using that pos big by (simp add: length_where_eq py_range_iff labels_size)
  have d: "length (where_eq ?l f) \<le> length (where_eq ?l g) + 1"
    if "f \<in> set (py_range K)" "g \<in> set (py_range K)" for f g
    using that pos by (simp add: length_where_eq py_range_iff labels_size)
  show ?thesis
    unfolding fold_invariant_def list_all_iff
    using a b c d by blast
qed

lemma shuffle_invariant:
  assumes "is_shuffle shuffle" "fold_invariant folds N K"
  shows "fold_invariant (shuffle folds) N K"
  using assms(2) unfolding fold_invariant_def list_all_iff
  by (simp add: length_where_eq is_shuffle_count[OF assms(1)] is_shuffle_length[OF assms(1)]
      is_shuffle_set[OF assms(1)])


text \<open>
  C2. For \<open>2 \<le> n_folds \<le> len(X)\<close> line 63 yields \<open>len(X)\<close> labels, every fold id in
  \<open>0..n_folds-1\<close> occurs among them and two folds differ in size by at most one; the
  same holds of the array after line 64 has shuffled it, for every shuffle that
  rearranges its argument.
\<close>

theorem fold_assigner_balanced:
  assumes "2 \<le> n_folds" "n_folds \<le> int len_X" "is_shuffle shuffle"
  shows "\<exists>fold0. fold_labels len_X n_folds = Inr fold0 \<and> fold_invariant fold0 len_X n_folds \<and>
           fold_assignment shuffle len_X n_folds = Inr (shuffle fold0) \<and>
           fold_invariant (shuffle fold0) len_X n_folds"
proof -
  let ?l = "map (\<lambda>i. int i mod n_folds) [0..<len_X]"
  have 1: "fold_labels len_X n_folds = Inr ?l"
    using assms(1) by (simp add: fold_labels_def)
  have 2: "fold_invariant ?l len_X n_folds"
    using assms(1,2) by (rule labels_invariant)
  have 3: "fold_assignment shuffle len_X n_folds = Inr (shuffle ?l)"
    by (simp add: fold_assignment_def 1)
  from 1 2 3 shuffle_invariant[OF assms(3) 2] show ?thesis by blast
qed


theorem fold_assigner_balanced_witness:
  "(2::int) \<le> 2 \<and> (2::int) \<le> int 5 \<and> is_shuffle rev \<and>
   fold_labels 5 2 = Inr [0, 1, 0, 1, 0] \<and> fold_invariant [0, 1, 0, 1, 0] 5 2 \<and>
   fold_assignment rev 5 2 = Inr (rev [0, 1, 0, 1, 0]) \<and>
   fold_invariant (rev [0, 1, 0, 1, 0]) 5 2"
proof -
  have l: "fold_labels 5 2 = Inr [0, 1, 0, 1, 0]"
    by code_simp
  have h: "(2::int) \<le> 2" "(2::int) \<le> int 5" by simp_all
  from fold_assigner_balanced[OF h is_shuffle_rev] obtain fold0 where
    f: "fold_labels 5 2 = Inr fold0" "fold_invariant fold0 5 2"
       "fold_assignment rev 5 2 = Inr (rev fold0)" "fold_invariant (rev fold0) 5 2"
    by blast
  from f(1) l have "fold0 = [0, 1, 0, 1, 0]" by simp
  with f l h is_shuffle_rev show ?thesis by simp
qed

text \<open>
  C3. For every number of instances and every \<open>n_folds\<close> for which \<open>i mod n_folds\<close>
  has a value, that is every \<open>n_folds \<noteq> 0\<close>, and so for every \<open>n_folds\<close> that section
  4.1 admits (\<open>2 \<le> n_folds \<le> len(X)\<close>), line 63 yields one label per instance and
  instance \<open>i\<close> gets the label \<open>i mod n_folds\<close> before the shuffle (so too, with nothing
  to label, when there is no instance); for 10 instances and 5 folds the labels are
  \<open>0,1,2,3,4,0,1,2,3,4\<close> and for 10 folds they are \<open>0,...,9\<close>.
\<close>

theorem fold_labels_mod:
  "(n_folds \<noteq> 0 \<or> len_X = 0 \<longrightarrow>
      (\<exists>fold0. fold_labels len_X n_folds = Inr fold0 \<and> length fold0 = len_X \<and>
         (\<forall>i<len_X. fold0 ! i = int i mod n_folds))) \<and>
   fold_labels 10 5 = Inr [0, 1, 2, 3, 4, 0, 1, 2, 3, 4] \<and>
   fold_labels 10 10 = Inr [0, 1, 2, 3, 4, 5, 6, 7, 8, 9]"
proof -
  have a: "fold_labels 10 5 = Inr [0, 1, 2, 3, 4, 0, 1, 2, 3, 4]"
    by code_simp
  have b: "fold_labels 10 10 = Inr [0, 1, 2, 3, 4, 5, 6, 7, 8, 9]"
    by code_simp
  have c: "n_folds \<noteq> 0 \<or> len_X = 0 \<longrightarrow>
      (\<exists>fold0. fold_labels len_X n_folds = Inr fold0 \<and> length fold0 = len_X \<and>
         (\<forall>i<len_X. fold0 ! i = int i mod n_folds))"
    by (simp add: fold_labels_def)
  from a b c show ?thesis by blast
qed

theorem fold_labels_mod_witness:
  "(3::int) \<noteq> 0 \<and> (2::int) \<le> 3 \<and> (3::int) \<le> int 4 \<and> fold_labels 4 3 = Inr [0, 1, 2, 0]"
proof -
  from fold_labels_mod[of 3 4] obtain fold0 where
    f: "fold_labels 4 3 = Inr fold0" "length fold0 = 4" "\<forall>i<4. fold0 ! i = int i mod 3"
    by auto
  have "fold0 = [0, 1, 2, 0]"
  proof (rule nth_equalityI)
    show "length fold0 = length [0, 1, 2, 0::int]" using f(2) by simp
    fix i assume "i < length fold0"
    then have "i < 4" using f(2) by simp
    then have "i = 0 \<or> i = 1 \<or> i = 2 \<or> i = 3" by arith
    then show "fold0 ! i = [0, 1, 2, 0] ! i" using f(3) by auto
  qed
  with f(1) show ?thesis by simp
qed

text \<open>
  C7, as the code has it. Lines 62-64 check neither \<open>n_folds < 2\<close> nor
  \<open>n_folds > len(X)\<close> and never raise ConfigurationError. They fail in one case only,
  \<open>n_folds = 0\<close> with at least one instance, with ZeroDivisionError; in every other
  case, and so whenever \<open>2 \<le> n_folds \<le> len(X)\<close>, they yield one label per instance.
\<close>

theorem fold_assigner_errors:
  assumes "is_shuffle shuffle"
  shows "fold_assignment shuffle len_X n_folds \<noteq> Inl ConfigurationError \<and>
    (n_folds = 0 \<and> 0 < len_X \<longrightarrow> fold_assignment shuffle len_X n_folds = Inl ZeroDivisionError) \<and>
    (n_folds \<noteq> 0 \<or> len_X = 0 \<longrightarrow>
       (\<exists>folds. fold_assignment shuffle len_X n_folds = Inr folds \<and> length folds = len_X)) \<and>
    (2 \<le> n_folds \<and> n_folds \<le> int len_X \<longrightarrow>
       (\<exists>folds. fold_assignment shuffle len_X n_folds = Inr folds \<and> length folds = len_X))"
  by (auto simp: fold_assignment_def fold_labels_def is_shuffle_length[OF assms])

theorem fold_assigner_errors_witness:
  "is_shuffle rev \<and> (2::int) \<le> 2 \<and> (2::int) \<le> int 5 \<and>
   fold_assignment rev 5 2 \<noteq> Inl ConfigurationError \<and>
   (\<exists>folds. fold_assignment rev 5 2 = Inr folds \<and> length folds = 5)"
  using fold_assigner_errors[OF is_shuffle_rev, of 5 2] is_shuffle_rev by simp

text \<open>
  C7 as stated fails: with \<open>n_folds = 1 < 2\<close> and three instances, and with
  \<open>n_folds = 3\<close> and only two instances, the assigner returns labels and no error.
\<close>

theorem fold_assigner_accepts_bad_counts:
  "fold_assignment rev 3 1 = Inr [0, 0, 0] \<and> fold_assignment rev 2 3 = Inr [1, 0]"
  by code_simp


section \<open>The cross-validation evaluator (cell f6eda8ee)\<close>

subsection \<open>Rows selected by position and rows selected by label\<close>

lemma zip_as_map:
  assumes "length ys = length xs"
  shows "zip xs ys = map (\<lambda>j. (xs ! j, ys ! j)) [0..<length xs]"
  using assms by (intro nth_equalityI) simp_all

lemma take_rows_where_eq:
  assumes "length folds = length X"
  shows "take_rows X (where_eq folds f) = Inr (rows_eq X folds f)"
proof -
  have c: "((\<lambda>p. snd p = f) \<circ> (\<lambda>j. (X ! j, folds ! j))) = (\<lambda>j. folds ! j = f)"
    by (rule ext) simp
  have "rows_eq X folds f = map (\<lambda>j. X ! j) (where_eq folds f)"
    unfolding rows_eq_def where_eq_def
    by (simp add: zip_as_map[OF assms] filter_map c comp_def assms)
  moreover have "list_all (\<lambda>j. j < length X) (where_eq folds f)"
    by (simp add: where_eq_def list_all_iff assms)
  ultimately show ?thesis by (simp add: take_rows_def)
qed

lemma take_rows_where_ne:
  assumes "length folds = length X"
  shows "take_rows X (where_ne folds f) = Inr (rows_ne X folds f)"
proof -
  have c: "((\<lambda>p. snd p \<noteq> f) \<circ> (\<lambda>j. (X ! j, folds ! j))) = (\<lambda>j. folds ! j \<noteq> f)"
    by (rule ext) simp
  have "rows_ne X folds f = map (\<lambda>j. X ! j) (where_ne folds f)"
    unfolding rows_ne_def where_ne_def
    by (simp add: zip_as_map[OF assms] filter_map c comp_def assms)
  moreover have "list_all (\<lambda>j. j < length X) (where_ne folds f)"
    by (simp add: where_ne_def list_all_iff assms)
  ultimately show ?thesis by (simp add: take_rows_def)
qed

lemma split_fold_rows:
  assumes "length folds = length X" "length y = length X"
  shows "split_fold X y folds f =
         Inr (rows_ne X folds f, rows_eq X folds f, rows_ne y folds f, rows_eq y folds f)"
proof -
  have "length folds = length y" using assms by simp
  then show ?thesis
    by (simp add: split_fold_def take_rows_where_eq take_rows_where_ne assms(1))
qed

lemma cv_loop_mapM:
  assumes "length folds = length X" "length y = length X"
  shows "cv_loop E X y folds is perf =
         (case mapM_err (cv_fold_score E X y folds) is of
            Inl e \<Rightarrow> Inl e | Inr p \<Rightarrow> Inr (perf @ p))"
proof (induction "is" arbitrary: perf)
  case Nil
  then show ?case by simp
next
  case (Cons i rest)
  show ?case
    by (simp add: split_fold_rows[OF assms] cv_fold_score_def Cons.IH split: sum.splits)
qed

lemma mapM_err_Inr:
  "mapM_err g xs = Inr vs \<Longrightarrow> length vs = length xs \<and> (\<forall>j<length xs. g (xs ! j) = Inr (vs ! j))"
proof (induction xs arbitrary: vs)
  case Nil
  then show ?case by simp
next
  case (Cons x xs)
  from Cons.prems obtain v vs' where
    v: "g x = Inr v" "mapM_err g xs = Inr vs'" "vs = v # vs'"
    by (auto split: sum.splits)
  from Cons.IH[OF v(2)] v(1,3) show ?case
    by (auto simp: nth_Cons split: nat.splits)
qed

lemma mapM_err_Inl:
  "mapM_err g xs = Inl e \<Longrightarrow> \<exists>x\<in>set xs. g x = Inl e"
  by (induction xs) (auto split: sum.splits)

lemma mapM_err_total:
  "(\<forall>x\<in>set xs. \<exists>v. g x = Inr v) \<Longrightarrow> \<exists>vs. mapM_err g xs = Inr vs"
  by (induction xs) (auto split: sum.splits)

text \<open>
  C1. For every dataset and every fold assignment of its length, and every fold id
  \<open>f\<close> of \<open>range(n_folds)\<close>: line 70 splits the data into the rows whose label is not
  \<open>f\<close> (training) and the rows whose label is \<open>f\<close> (test); the loop of lines 68-74
  computes, fold by fold and in the order of the fold ids, the score of a predictor fresh
  from its constructor, fitted on the training rows and scored on the test rows, stopping
  at the first call that raises; when it completes, \<open>perf\<close> holds exactly one score per
  fold id.
\<close>

theorem cv_evaluator_per_fold:
  assumes "length folds = length X" "length y = length X"
  shows "(\<forall>f. split_fold X y folds f =
            Inr (rows_ne X folds f, rows_eq X folds f, rows_ne y folds f, rows_eq y folds f)) \<and>
         cv_loop E X y folds (py_range n_folds) [] =
            mapM_err (cv_fold_score E X y folds) (py_range n_folds) \<and>
         (\<forall>perf. cv_loop E X y folds (py_range n_folds) [] = Inr perf \<longrightarrow>
            length perf = nat n_folds \<and>
            (\<forall>j<nat n_folds. cv_fold_score E X y folds (int j) = Inr (perf ! j)))"
proof -
  have a: "cv_loop E X y folds (py_range n_folds) [] =
           mapM_err (cv_fold_score E X y folds) (py_range n_folds)"
    by (simp add: cv_loop_mapM[OF assms] split: sum.splits)
  have b: "length perf = nat n_folds \<and>
           (\<forall>j<nat n_folds. cv_fold_score E X y folds (int j) = Inr (perf ! j))"
    if "cv_loop E X y folds (py_range n_folds) [] = Inr perf" for perf
  proof -
    from that a have "mapM_err (cv_fold_score E X y folds) (py_range n_folds) = Inr perf"
      by simp
    from mapM_err_Inr[OF this] show ?thesis
      by (simp add: py_range_def)
  qed
  from a b split_fold_rows[OF assms] show ?thesis by blast
qed

theorem cv_evaluator_per_fold_witness:
  "length [0, 1, 0::int] = length [10, 20, 30::int] \<and>
   length [1, 2, 5::real] = length [10, 20, 30::int] \<and>
   split_fold [10, 20, 30::int] [1, 2, 5::real] [0, 1, 0] 0 = Inr ([20], [10, 30], [2], [1, 5]) \<and>
   cv_loop strict_estimator [10, 20, 30] [1, 2, 5] [0, 1, 0] (py_range 2) [] =
     Inr [Fin 3, Fin 2] \<and>
   cv_fold_score strict_estimator [10, 20, 30] [1, 2, 5] [0, 1, 0] 0 = Inr (Fin 3) \<and>
   cv_fold_score strict_estimator [10, 20, 30] [1, 2, 5] [0, 1, 0] 1 = Inr (Fin 2)"
proof -
  have h: "length [0, 1, 0::int] = length [10, 20, 30::int]"
    "length [1, 2, 5::real] = length [10, 20, 30::int]" by simp_all
  have r: "rows_ne [10, 20, 30::int] [0, 1, 0] 0 = [20]" "rows_eq [10, 20, 30::int] [0, 1, 0] 0 = [10, 30]"
    "rows_ne [1, 2, 5::real] [0, 1, 0] 0 = [2]" "rows_eq [1, 2, 5::real] [0, 1, 0] 0 = [1, 5]"
    by (simp_all add: rows_ne_def rows_eq_def)
  have m: "mapM_err (cv_fold_score strict_estimator [10, 20, 30] [1, 2, 5] [0, 1, 0]) (py_range 2) =
     Inr [Fin 3, Fin 2]"
    by code_simp
  have s: "cv_fold_score strict_estimator [10, 20, 30] [1, 2, 5] [0, 1, 0] 0 = Inr (Fin 3)"
     "cv_fold_score strict_estimator [10, 20, 30] [1, 2, 5] [0, 1, 0] 1 = Inr (Fin 2)"
    by code_simp+
  from cv_evaluator_per_fold[OF h, of strict_estimator 2] r m s show ?thesis
    by simp
qed

subsection \<open>Failures of the evaluator\<close>

lemma rows_eq_where: 
  assumes "length folds = length X"
  shows "length (rows_eq X folds f) = count_list folds f"
proof -
  have "Inr (rows_eq X folds f) = (Inr (map (\<lambda>j. X ! j) (where_eq folds f)) :: error + 'a list)"
    using take_rows_where_eq[OF assms, of f]
    by (simp add: take_rows_def split: if_splits)
  then have "length (rows_eq X folds f) = length (where_eq folds f)" by simp
  then show ?thesis by (simp add: length_where_eq)
qed

lemma leave_one_out_sizes:
  assumes "is_shuffle shuffle" "0 < N" "f \<in> set (py_range (int N))"
  shows "count_list (shuffle (map (\<lambda>i. int i mod int N) [0..<N])) f = 1"
proof -
  from assms(3) have f: "0 \<le> f" "f < int N" by (simp_all add: py_range_iff)
  have "count_list (map (\<lambda>i. int i mod int N) [0..<N]) f =
        N div nat (int N) + (if nat f < N mod nat (int N) then 1 else 0)"
    using assms(2) f by (intro labels_size) simp_all
  also have "\<dots> = 1" using assms(2) by simp
  finally show ?thesis by (simp add: is_shuffle_count[OF assms(1)])
qed

lemma fold_assignment_length:
  assumes "is_shuffle shuffle" "fold_assignment shuffle len_X n_folds = Inr folds"
  shows "length folds = len_X"
proof -
  from assms(2) obtain l where l: "fold_labels len_X n_folds = Inr l" "folds = shuffle l"
    by (auto simp: fold_assignment_def split: sum.splits)
  from l(1) have "length l = len_X"
    by (auto simp: fold_labels_def split: if_splits)
  with l(2) show ?thesis by (simp add: is_shuffle_length[OF assms(1)])
qed

lemma cross_validation_unfold:
  assumes "is_shuffle shuffle" "length y = length X"
    "fold_assignment shuffle (length X) n_folds = Inr folds"
  shows "cross_validation shuffle E X y n_folds =
     (case mapM_err (cv_fold_score E X y folds) (py_range n_folds) of
        Inl e \<Rightarrow> Inl e
      | Inr perf \<Rightarrow> Inr \<lparr>cv_perf = perf, cv_printed = np_round (np_mean perf) 3\<rparr>)"
proof -
  have len: "length folds = length X"
    using assms(3) is_shuffle_length[OF assms(1)]
    by (auto simp: fold_assignment_def fold_labels_def split: if_splits)
  show ?thesis
    by (simp add: cross_validation_def cross_validation_with_def assms(3)
        cv_loop_mapM[OF len assms(2)] split: sum.splits)
qed

lemma fold_assignment_cases:
  "(n_folds = 0 \<and> 0 < len_X \<and> fold_assignment shuffle len_X n_folds = Inl ZeroDivisionError) \<or>
   ((n_folds \<noteq> 0 \<or> len_X = 0) \<and>
    fold_assignment shuffle len_X n_folds = Inr (shuffle (map (\<lambda>i. int i mod n_folds) [0..<len_X])))"
  by (auto simp: fold_assignment_def fold_labels_def)

text \<open>
  C8, as the code has it. The cell has no guard on a partition. Its only failures are
  the ZeroDivisionError of line 63 and an error that \<open>fit\<close> or \<open>score\<close> raises
  for some fold (on a fold whose test partition is empty, \<open>score\<close> is called on no
  rows and the outcome is its own); when fit and score succeed on every fold the cell
  completes with one score per fold. In the leave-one-out case \<open>n_folds = len(X)\<close>
  every test partition has exactly one instance.
\<close>

theorem cv_no_partition_guard:
  assumes "is_shuffle shuffle" "length y = length X"
  shows "(\<forall>e. cross_validation shuffle E X y n_folds = Inl e \<longrightarrow>
            (e = ZeroDivisionError \<and> n_folds = 0 \<and> X \<noteq> []) \<or>
            (\<exists>folds f. fold_assignment shuffle (length X) n_folds = Inr folds \<and>
               f \<in> set (py_range n_folds) \<and> cv_fold_score E X y folds f = Inl e)) \<and>
         ((n_folds \<noteq> 0 \<or> X = []) \<and>
          (\<forall>folds f. fold_assignment shuffle (length X) n_folds = Inr folds \<and>
               f \<in> set (py_range n_folds) \<longrightarrow> (\<exists>s. cv_fold_score E X y folds f = Inr s)) \<longrightarrow>
            (\<exists>r. cross_validation shuffle E X y n_folds = Inr r \<and>
               length (cv_perf r) = nat n_folds)) \<and>
         (n_folds = int (length X) \<and> X \<noteq> [] \<longrightarrow>
            (\<exists>folds. fold_assignment shuffle (length X) n_folds = Inr folds \<and>
               (\<forall>f\<in>set (py_range n_folds).
                  length (rows_eq X folds f) = 1 \<and> length (rows_eq y folds f) = 1)))"
proof -
  let ?l = "shuffle (map (\<lambda>i. int i mod n_folds) [0..<length X])"
  have len: "length ?l = length X" by (simp add: is_shuffle_length[OF assms(1)])
  have a: "(e = ZeroDivisionError \<and> n_folds = 0 \<and> X \<noteq> []) \<or>
            (\<exists>folds f. fold_assignment shuffle (length X) n_folds = Inr folds \<and>
               f \<in> set (py_range n_folds) \<and> cv_fold_score E X y folds f = Inl e)"
    if e: "cross_validation shuffle E X y n_folds = Inl e" for e
  proof -
    from fold_assignment_cases[of n_folds "length X" shuffle]
    consider (zero) "n_folds = 0" "0 < length X"
        "fold_assignment shuffle (length X) n_folds = Inl ZeroDivisionError"
      | (labels) "fold_assignment shuffle (length X) n_folds = Inr ?l"
      by blast
    then show ?thesis
    proof cases
      case zero
      with e show ?thesis by (simp add: cross_validation_def cross_validation_with_def)
    next
      case labels
      from e cross_validation_unfold[OF assms labels, of E]
      have "mapM_err (cv_fold_score E X y ?l) (py_range n_folds) = Inl e"
        by (simp split: sum.splits)
      from mapM_err_Inl[OF this] labels show ?thesis by blast
    qed
  qed
  have b: "\<exists>r. cross_validation shuffle E X y n_folds = Inr r \<and> length (cv_perf r) = nat n_folds"
    if ok: "n_folds \<noteq> 0 \<or> X = []"
      and tot: "\<forall>folds f. fold_assignment shuffle (length X) n_folds = Inr folds \<and>
               f \<in> set (py_range n_folds) \<longrightarrow> (\<exists>s. cv_fold_score E X y folds f = Inr s)"
  proof -
    from ok fold_assignment_cases[of n_folds "length X" shuffle]
    have fa: "fold_assignment shuffle (length X) n_folds = Inr ?l" by auto
    from tot fa have "\<forall>f\<in>set (py_range n_folds). \<exists>s. cv_fold_score E X y ?l f = Inr s"
      by blast
    from mapM_err_total[OF this] obtain perf where
      p: "mapM_err (cv_fold_score E X y ?l) (py_range n_folds) = Inr perf" by blast
    from mapM_err_Inr[OF p] have "length perf = nat n_folds" by (simp add: py_range_def)
    with cross_validation_unfold[OF assms fa, of E] p show ?thesis by simp
  qed
  have c: "\<exists>folds. fold_assignment shuffle (length X) n_folds = Inr folds \<and>
               (\<forall>f\<in>set (py_range n_folds).
                  length (rows_eq X folds f) = 1 \<and> length (rows_eq y folds f) = 1)"
    if n: "n_folds = int (length X)" and ne: "X \<noteq> []"
  proof -
    from n ne fold_assignment_cases[of n_folds "length X" shuffle]
    have fa: "fold_assignment shuffle (length X) n_folds = Inr ?l" by auto
    have leny: "length ?l = length y" using len assms(2) by simp
    have "length (rows_eq X ?l f) = 1 \<and> length (rows_eq y ?l f) = 1"
      if "f \<in> set (py_range n_folds)" for f
    proof -
      have "count_list ?l f = 1"
        using leave_one_out_sizes[OF assms(1), of "length X" f] that n ne by simp
      then show ?thesis
        by (simp only: rows_eq_where[OF len] rows_eq_where[OF leny])
    qed
    with fa show ?thesis by blast
  qed
  from a b c show ?thesis by blast
qed

theorem cv_no_partition_guard_witness:
  "is_shuffle rev \<and> length [1, 2, 3::real] = length [10, 20, 30::int] \<and>
   (3::int) = int (length [10, 20, 30::int]) \<and>
   cross_validation rev strict_estimator [10, 20, 30] [1, 2, 3] 3 =
     Inr \<lparr>cv_perf = [Fin 3, Fin 2, Fin 1], cv_printed = Fin 2\<rparr> \<and>
   (\<exists>folds. fold_assignment rev (length [10, 20, 30::int]) 3 = Inr folds \<and>
      (\<forall>f\<in>set (py_range 3).
         length (rows_eq [10, 20, 30::int] folds f) = 1 \<and>
         length (rows_eq [1, 2, 3::real] folds f) = 1))"
proof -
  have cv: "cross_validation rev strict_estimator [10, 20, 30] [1, 2, 3] 3 =
     Inr \<lparr>cv_perf = [Fin 3, Fin 2, Fin 1], cv_printed = Fin 2\<rparr>"
    by code_simp
  have h: "length [1, 2, 3::real] = length [10, 20, 30::int]" by simp
  from cv_no_partition_guard[OF is_shuffle_rev h, of strict_estimator 3] cv is_shuffle_rev
  show ?thesis by simp
qed

text \<open>
  C8 as stated fails. With two instances and four folds the test partition of fold 2
  is empty. A learner that rejects an array with no rows makes the cell fail with its
  ValueError, not with EmptyPartitionError; a learner that accepts it is scored on the
  empty partition, for folds 2 and 3, and the cell completes.
\<close>

theorem cv_empty_test_partition:
  "rows_eq [10, 20::int] [1, 0] 2 = [] \<and>
   fold_assignment rev 2 4 = Inr [1, 0] \<and>
   cross_validation rev strict_estimator [10, 20] [1, 2] 4 = Inl ValueError \<and>
   cross_validation rev lenient_estimator [10, 20] [1, 2] 4 =
     Inr \<lparr>cv_perf = [Fin 1, Fin 1, Fin 0, Fin 0], cv_printed = Fin 0.5\<rparr>"
  by code_simp

subsection \<open>The report\<close>

text \<open>
  C6, as the code has it. A run of the cell that completes holds one score per fold,
  the scores of section 4.2 in the order of the fold ids, and reports one number:
  numpy's mean of these scores, rounded by numpy to three decimals. There is one run of
  the folds, no repeats, and no standard deviation. This holds whatever numpy's mean and
  round compute.
\<close>

theorem cv_reports_rounded_mean:
  assumes "is_shuffle shuffle" "length y = length X"
    "cross_validation_with lib_mean lib_round shuffle E X y n_folds = Inr r"
  shows "\<exists>folds. fold_assignment shuffle (length X) n_folds = Inr folds \<and>
           mapM_err (cv_fold_score E X y folds) (py_range n_folds) = Inr (cv_perf r) \<and>
           length (cv_perf r) = nat n_folds \<and>
           cv_printed r = lib_round (lib_mean (cv_perf r)) 3"
proof -
  from assms(3) obtain folds perf where
    fa: "fold_assignment shuffle (length X) n_folds = Inr folds"
    and cl: "cv_loop E X y folds (py_range n_folds) [] = Inr perf"
    and r: "r = \<lparr>cv_perf = perf, cv_printed = lib_round (lib_mean perf) 3\<rparr>"
    by (auto simp: cross_validation_with_def split: sum.splits)
  have len: "length folds = length X"
    using assms(1) fa by (rule fold_assignment_length)
  from cl cv_loop_mapM[OF len assms(2), of E "py_range n_folds" "[]"]
  have m: "mapM_err (cv_fold_score E X y folds) (py_range n_folds) = Inr perf"
    by (simp split: sum.splits)
  from mapM_err_Inr[OF m] have "length perf = nat n_folds"
    by (simp add: py_range_def)
  with fa m r show ?thesis by simp
qed

theorem cv_reports_rounded_mean_witness:
  "is_shuffle rev \<and> length [1 / 16, 1 / 16::real] = length [10, 20::int] \<and>
   cross_validation_with np_mean np_round rev strict_estimator [10, 20] [1 / 16, 1 / 16] 2 =
     Inr \<lparr>cv_perf = [Fin (1 / 16), Fin (1 / 16)], cv_printed = Fin (62 / 1000)\<rparr> \<and>
   fold_assignment rev (length [10, 20::int]) 2 = Inr [1, 0] \<and>
   mapM_err (cv_fold_score strict_estimator [10, 20] [1 / 16, 1 / 16] [1, 0]) (py_range 2) =
     Inr [Fin (1 / 16), Fin (1 / 16)] \<and>
   np_round (np_mean [Fin (1 / 16), Fin (1 / 16)]) 3 = Fin (62 / 1000)"
proof -
  let ?r = "\<lparr>cv_perf = [Fin (1 / 16), Fin (1 / 16)], cv_printed = Fin (62 / 1000)\<rparr>"
  have cv: "cross_validation_with np_mean np_round rev strict_estimator [10, 20]
      [1 / 16, 1 / 16] 2 = Inr ?r"
    by code_simp
  have h: "length [1 / 16, 1 / 16::real] = length [10, 20::int]" by simp
  have fa: "fold_assignment rev (length [10, 20::int]) 2 = Inr [1, 0]"
    by code_simp
  from cv_reports_rounded_mean[OF is_shuffle_rev h cv] obtain folds where
    f: "fold_assignment rev (length [10, 20::int]) 2 = Inr folds"
    and m: "mapM_err (cv_fold_score strict_estimator [10, 20] [1 / 16, 1 / 16] folds)
              (py_range 2) = Inr (cv_perf ?r)"
    and p: "cv_printed ?r = np_round (np_mean (cv_perf ?r)) 3"
    by blast
  from f fa have "folds = [1, 0]" by simp
  with m p cv fa h is_shuffle_rev show ?thesis by simp
qed

text \<open>
  C6 as stated fails: the report has no standard deviation. Two runs whose per-fold
  scores are \<open>2, 0\<close> and \<open>1, 1\<close> report the same and only number, 1 (the mean and its
  rounding are exact in float64 here), while the standard deviations of their scores
  are 1 and 0.
\<close>

theorem cv_report_has_no_deviation:
  "cross_validation rev strict_estimator [10, 20] [0, 2] 2 =
     Inr \<lparr>cv_perf = [Fin 2, Fin 0], cv_printed = Fin 1\<rparr> \<and>
   cross_validation rev strict_estimator [10, 20] [1, 1] 2 =
     Inr \<lparr>cv_perf = [Fin 1, Fin 1], cv_printed = Fin 1\<rparr> \<and>
   std_dev [2, 0] = 1 \<and> std_dev [1, 1] = 0"
proof -
  have "cross_validation rev strict_estimator [10, 20] [0, 2] 2 =
     Inr \<lparr>cv_perf = [Fin 2, Fin 0], cv_printed = Fin 1\<rparr>"
    by code_simp
  moreover have "cross_validation rev strict_estimator [10, 20] [1, 1] 2 =
     Inr \<lparr>cv_perf = [Fin 1, Fin 1], cv_printed = Fin 1\<rparr>"
    by code_simp
  moreover have "std_dev [2, 0] = 1 \<and> std_dev [1, 1] = 0"
    by (simp add: std_dev_def Let_def)
  ultimately show ?thesis by blast
qed

section \<open>The hyperparameter search (cell f306f94d)\<close>

subsection \<open>The loops, without the scaler's state\<close>

text \<open>
  For a scaler whose \<open>fit_transform\<close> refits, the state that the one scaler object
  carries from fold to fold and from candidate to candidate has no effect on a score.
\<close>

lemma fold_loop_step:
  assumes "scaler_refits S" "length folds = length X" "length y = length X"
  shows "drop_state (fold_loop S E X y folds k sc (i # rest) perf) =
         (case search_fold_score S E X y folds k i of
            Inl e \<Rightarrow> Inl e
          | Inr s \<Rightarrow>
             (case sc_fit_transform S (sc_new S) (rows_ne X folds i) of
                Inl e \<Rightarrow> Inl e
              | Inr (sc', Z_train) \<Rightarrow>
                  drop_state (fold_loop S E X y folds k sc' rest (perf @ [s]))))"
proof -
  have r: "sc_fit_transform S sc (rows_ne X folds i) =
           sc_fit_transform S (sc_new S) (rows_ne X folds i)"
    using assms(1) unfolding scaler_refits_def by blast
  show ?thesis
    by (simp add: split_fold_rows[OF assms(2,3)] search_fold_score_def r
        split: sum.splits prod.splits)
qed

lemma fold_loop_mapM:
  assumes "scaler_refits S" "length folds = length X" "length y = length X"
  shows "drop_state (fold_loop S E X y folds k sc is perf) =
         (case mapM_err (search_fold_score S E X y folds k) is of
            Inl e \<Rightarrow> Inl e | Inr p \<Rightarrow> Inr (perf @ p))"
proof (induction "is" arbitrary: sc perf)
  case Nil
  then show ?case by simp
next
  case (Cons i rest)
  show ?case
  proof (cases "search_fold_score S E X y folds k i")
    case (Inl e)
    then show ?thesis
      by (simp only: fold_loop_step[OF assms]) simp
  next
    case (Inr s)
    then obtain sc' Z_train where
      ft: "sc_fit_transform S (sc_new S) (rows_ne X folds i) = Inr (sc', Z_train)"
      by (auto simp: search_fold_score_def split: sum.splits prod.splits)
    show ?thesis
      using Cons.IH[of sc' "perf @ [s]"]
      by (simp only: fold_loop_step[OF assms]) (simp add: Inr ft split: sum.splits)
  qed
qed

lemma candidate_loop_mapM:
  assumes "scaler_refits S" "length folds = length X" "length y = length X"
  shows "drop_state (candidate_loop S E X y folds n_folds sc ks nperf) =
         (case mapM_err (candidate_score S E X y folds n_folds) ks of
            Inl e \<Rightarrow> Inl e | Inr p \<Rightarrow> Inr (nperf @ p))"
proof (induction ks arbitrary: sc nperf)
  case Nil
  then show ?case by simp
next
  case (Cons k rest)
  have fl: "drop_state (fold_loop S E X y folds k sc (py_range n_folds) []) =
         (case mapM_err (search_fold_score S E X y folds k) (py_range n_folds) of
            Inl e \<Rightarrow> Inl e | Inr p \<Rightarrow> Inr p)"
    using fold_loop_mapM[OF assms, of E k sc "py_range n_folds" "[]"]
    by (simp split: sum.splits)
  show ?case
  proof (cases "fold_loop S E X y folds k sc (py_range n_folds) []")
    case (Inl e)
    with fl show ?thesis
      by (simp add: candidate_score_def split: sum.splits)
  next
    case (Inr a)
    obtain sc' perf where a: "a = (sc', perf)" by (cases a)
    from fl Inr a have "mapM_err (search_fold_score S E X y folds k) (py_range n_folds) = Inr perf"
      by (simp split: sum.splits)
    then have cs: "candidate_score S E X y folds n_folds k = Inr (np_mean perf)"
      by (simp add: candidate_score_def)
    show ?thesis
      using Cons.IH[of sc' "nperf @ [np_mean perf]"]
      by (simp add: Inr a cs split: sum.splits)
  qed
qed

lemma candidate_loop_length:
  "candidate_loop S E X y folds n_folds sc ks nperf = Inr (sc', p) \<Longrightarrow>
   length p = length nperf + length ks"
proof (induction ks arbitrary: sc nperf)
  case Nil
  then show ?case by simp
next
  case (Cons k rest)
  from Cons.prems obtain sc1 perf where
    "candidate_loop S E X y folds n_folds sc1 rest (nperf @ [np_mean perf]) = Inr (sc', p)"
    by (auto split: sum.splits prod.splits)
  from Cons.IH[OF this] show ?case by simp
qed

lemma refits_centering: "scaler_refits centering_scaler"
  by (simp add: scaler_refits_def centering_scaler_def)

subsection \<open>The position that argmax returns\<close>

lemma np_le_Fin_iff: "np_le a b \<longleftrightarrow> (\<exists>x y. a = Fin x \<and> b = Fin y \<and> x \<le> y)"
  by (cases a; cases b) simp_all

lemma np_le_refl: "a \<noteq> NaN \<Longrightarrow> np_le a a"
  by (cases a) simp_all

lemma np_le_trans: "np_le a b \<Longrightarrow> np_le b c \<Longrightarrow> np_le a c"
  by (cases a; cases b; cases c) simp_all

lemma np_le_total: "a \<noteq> NaN \<Longrightarrow> b \<noteq> NaN \<Longrightarrow> np_le a b \<or> np_le b a"
  by (cases a; cases b) auto

lemma is_argmax_iff:
  "is_argmax xs b \<longleftrightarrow>
     (b < length xs \<and>
      (if NaN \<in> set xs then xs ! b = NaN \<and> (\<forall>j<b. xs ! j \<noteq> NaN)
       else (\<forall>j<length xs. np_le (xs ! j) (xs ! b)) \<and> (\<forall>j<b. \<not> np_le (xs ! b) (xs ! j))))"
proof (cases "b < length xs")
  case True
  then have t: "P (take b xs ! j) = P (xs ! j)" if "j < b" for j and P :: "npfloat \<Rightarrow> bool"
    using that by simp
  from True have m: "min (length xs) b = b" by simp
  have a: "NaN \<notin> set (take b xs) \<longleftrightarrow> (\<forall>j<b. xs ! j \<noteq> NaN)"
    using True by (auto simp: in_set_conv_nth m)
  have c: "list_all (\<lambda>v. \<not> np_le (xs ! b) v) (take b xs) \<longleftrightarrow> (\<forall>j<b. \<not> np_le (xs ! b) (xs ! j))"
    using True by (simp add: list_all_length m)
  show ?thesis
    unfolding is_argmax_def a c by (simp add: list_all_length)
next
  case False
  then show ?thesis by (simp add: is_argmax_def)
qed

lemma argmax_loop_correct:
  assumes "length pre = i" "max_ind < i" "pre ! max_ind = mp" "NaN \<notin> set pre"
    "\<forall>j<i. np_le (pre ! j) mp" "\<forall>j<max_ind. \<not> np_le mp (pre ! j)"
  shows "is_argmax (pre @ xs) (argmax_loop xs i mp max_ind)"
  using assms
proof (induction xs arbitrary: pre i mp max_ind)
  case Nil
  then show ?case by (simp add: is_argmax_iff)
next
  case (Cons x xs)
  have mpn: "mp \<noteq> NaN" using Cons.prems(2,3,4) Cons.prems(1) by (metis nth_mem)
  show ?case
  proof (cases "np_le x mp")
    case True
    then have xn: "x \<noteq> NaN" by (cases x) simp_all
    have "is_argmax ((pre @ [x]) @ xs) (argmax_loop xs (Suc i) mp max_ind)"
    proof (rule Cons.IH)
      show "length (pre @ [x]) = Suc i" using Cons.prems(1) by simp
      show "max_ind < Suc i" using Cons.prems(2) by simp
      show "(pre @ [x]) ! max_ind = mp" using Cons.prems(1,2,3) by (simp add: nth_append)
      show "NaN \<notin> set (pre @ [x])" using Cons.prems(4) xn by auto
      show "\<forall>j<Suc i. np_le ((pre @ [x]) ! j) mp"
        using Cons.prems(1,5) True by (auto simp: nth_append less_Suc_eq)
      show "\<forall>j<max_ind. \<not> np_le mp ((pre @ [x]) ! j)"
        using Cons.prems(1,2,6) by (auto simp: nth_append)
    qed
    with True show ?thesis by simp
  next
    case False
    show ?thesis
    proof (cases "x = NaN")
      case True
      have "is_argmax (pre @ x # xs) i"
        unfolding is_argmax_iff using True Cons.prems(1,4)
        by (auto simp: nth_append in_set_conv_nth)
      with False True show ?thesis by simp
    next
      case xn: False
      from False xn mpn have lt: "np_le mp x" using np_le_total by blast
      have "is_argmax ((pre @ [x]) @ xs) (argmax_loop xs (Suc i) x i)"
      proof (rule Cons.IH)
        show "length (pre @ [x]) = Suc i" using Cons.prems(1) by simp
        show "i < Suc i" by simp
        show "(pre @ [x]) ! i = x" using Cons.prems(1) by (simp add: nth_append)
        show "NaN \<notin> set (pre @ [x])" using Cons.prems(4) xn by auto
        show "\<forall>j<Suc i. np_le ((pre @ [x]) ! j) x"
          using Cons.prems(1,5) lt xn np_le_trans np_le_refl
          by (auto simp: nth_append less_Suc_eq)
        show "\<forall>j<i. \<not> np_le x ((pre @ [x]) ! j)"
          using Cons.prems(1,5) False np_le_trans
          by (auto simp: nth_append)
      qed
      with False xn show ?thesis by simp
    qed
  qed
qed

lemma np_argmax_correct:
  "xs \<noteq> [] \<Longrightarrow> \<exists>b. np_argmax xs = Inr b \<and> is_argmax xs b"
proof (cases xs)
  case Nil
  assume "xs \<noteq> []"
  with Nil show ?thesis by simp
next
  case (Cons x rest)
  show ?thesis
  proof (cases "x = NaN")
    case True
    then have "is_argmax xs 0" by (simp add: is_argmax_iff Cons)
    with True Cons show ?thesis by (simp add: np_argmax_def)
  next
    case False
    have "is_argmax ([x] @ rest) (argmax_loop rest 1 x 0)"
      using False by (intro argmax_loop_correct) (auto simp: np_le_refl)
    with False Cons show ?thesis by (simp add: np_argmax_def)
  qed
qed

subsection \<open>Selection\<close>

lemma search_Inr:
  assumes "hyperparameter_search shuffle S E X y n_folds ks = Inr r"
  obtains folds sc nperf b where
    "fold_assignment shuffle (length X) n_folds = Inr folds"
    "candidate_loop S E X y folds n_folds (sc_new S) ks [] = Inr (sc, nperf)"
    "np_argmax nperf = Inr b" "b < length ks" "b < length nperf"
    "r = \<lparr>best_neighbourhood = b, best_k = ks ! b, best_perf = nperf ! b,
          neighbourhood_perf = nperf, printed_perf = np_round (nperf ! b) 3\<rparr>"
  using assms unfolding hyperparameter_search_def py_index_def
  by (auto split: sum.splits prod.splits if_splits)

lemma search_of_loop:
  assumes "fold_assignment shuffle (length X) n_folds = Inr folds"
    "candidate_loop S E X y folds n_folds (sc_new S) ks [] = Inr (sc, nperf)"
    "ks \<noteq> []"
  shows "\<exists>b. np_argmax nperf = Inr b \<and> is_argmax nperf b \<and> b < length ks \<and>
     hyperparameter_search shuffle S E X y n_folds ks =
       Inr \<lparr>best_neighbourhood = b, best_k = ks ! b, best_perf = nperf ! b,
          neighbourhood_perf = nperf, printed_perf = np_round (nperf ! b) 3\<rparr>"
proof -
  from candidate_loop_length[OF assms(2)] have len: "length nperf = length ks" by simp
  with assms(3) have "nperf \<noteq> []" by auto
  from np_argmax_correct[OF this] obtain b where
    b: "np_argmax nperf = Inr b" "is_argmax nperf b" by blast
  from b(2) have bl: "b < length nperf" by (simp add: is_argmax_def)
  with len b assms(1,2) show ?thesis
    by (simp add: hyperparameter_search_def py_index_def)
qed

text \<open>
  C4, as the code has it. A search that completes was given at least one candidate and
  holds one aggregate score per candidate; line 251 always maximises (the cell has no
  option for the direction): the position chosen is that of the first maximum of the
  aggregate scores as numpy ranks them, so with no NaN among them the chosen score is
  \<open>\<ge>\<close> every aggregate score and no earlier candidate reaches it (of candidates
  that tie, the first in list order is chosen), and with a NaN among them the first
  NaN is chosen; \<open>best_k\<close> and \<open>best_perf\<close> are the candidate and the score at that
  position.
\<close>

theorem search_selects_first_maximum:
  assumes "hyperparameter_search shuffle S E X y n_folds ks = Inr r"
  shows "ks \<noteq> [] \<and> length (neighbourhood_perf r) = length ks \<and>
         is_argmax (neighbourhood_perf r) (best_neighbourhood r) \<and>
         best_k r = ks ! best_neighbourhood r \<and>
         best_perf r = neighbourhood_perf r ! best_neighbourhood r \<and>
         (NaN \<notin> set (neighbourhood_perf r) \<longrightarrow>
            (\<forall>j<length ks. np_le (neighbourhood_perf r ! j) (best_perf r)) \<and>
            (\<forall>j<best_neighbourhood r. neighbourhood_perf r ! j \<noteq> best_perf r))"
proof -
  from assms obtain folds sc nperf b where
    s: "fold_assignment shuffle (length X) n_folds = Inr folds"
    "candidate_loop S E X y folds n_folds (sc_new S) ks [] = Inr (sc, nperf)"
    "np_argmax nperf = Inr b" "b < length ks" "b < length nperf"
    "r = \<lparr>best_neighbourhood = b, best_k = ks ! b, best_perf = nperf ! b,
          neighbourhood_perf = nperf, printed_perf = np_round (nperf ! b) 3\<rparr>"
    by (rule search_Inr)
  from s(4) have ne: "ks \<noteq> []" by auto
  from candidate_loop_length[OF s(2)] have len: "length nperf = length ks" by simp
  from search_of_loop[OF s(1,2) ne] s(3) have am: "is_argmax nperf b" by auto
  have fin: "(\<forall>j<length ks. np_le (nperf ! j) (nperf ! b)) \<and> (\<forall>j<b. nperf ! j \<noteq> nperf ! b)"
    if nn: "NaN \<notin> set nperf"
  proof -
    from am nn have 1: "\<forall>j<length nperf. np_le (nperf ! j) (nperf ! b)"
      and 2: "\<forall>j<b. \<not> np_le (nperf ! b) (nperf ! j)"
      by (simp_all add: is_argmax_iff)
    from nn s(5) have "nperf ! b \<noteq> NaN" by (metis nth_mem)
    then have "np_le (nperf ! b) (nperf ! b)" by (rule np_le_refl)
    with 2 have "\<forall>j<b. nperf ! j \<noteq> nperf ! b" by metis
    with 1 len show ?thesis by simp
  qed
  from ne len am fin s(6) show ?thesis by simp
qed

theorem search_selects_first_maximum_witness:
  "hyperparameter_search rev centering_scaler toy_knn [1, 2, 3] [0, 0, 0::int] 3 [1, 2, 1] =
     Inr \<lparr>best_neighbourhood = 0, best_k = 1, best_perf = Fin (-1),
          neighbourhood_perf = [Fin (-1), Fin (-2), Fin (-1)], printed_perf = Fin (-1)\<rparr> \<and>
   is_argmax [Fin (-1), Fin (-2), Fin (-1)] 0 \<and> NaN \<notin> set [Fin (-1), Fin (-2), Fin (-1)]"
proof -
  have s: "hyperparameter_search rev centering_scaler toy_knn [1, 2, 3] [0, 0, 0::int] 3 [1, 2, 1] =
     Inr \<lparr>best_neighbourhood = 0, best_k = 1, best_perf = Fin (-1),
          neighbourhood_perf = [Fin (-1), Fin (-2), Fin (-1)], printed_perf = Fin (-1)\<rparr>"
    by code_simp
  from search_selects_first_maximum[OF s] s show ?thesis by simp
qed

text \<open>
  C4 as stated fails. The direction is no option of the cell: for the candidates
  \<open>2, 1\<close> with aggregate scores \<open>-2, -1\<close> the cell chooses position 1, where the
  rule of section 4.3 with lower-is-better chooses position 0. And where the aggregate
  scores are NaN (no instance and no fold), the candidate chosen has no maximum score.
\<close>

theorem search_always_maximises:
  "hyperparameter_search rev centering_scaler toy_knn [1, 2, 3] [0, 0, 0::int] 3 [2, 1] =
     Inr \<lparr>best_neighbourhood = 1, best_k = 1, best_perf = Fin (-1),
          neighbourhood_perf = [Fin (-2), Fin (-1)], printed_perf = Fin (-1)\<rparr> \<and>
   spec_select LowerIsBetter [-2, -1] = Inr 0 \<and>
   hyperparameter_search rev centering_scaler toy_knn [] ([]::int list) 0 [2, 1] =
     Inr \<lparr>best_neighbourhood = 0, best_k = 2, best_perf = NaN,
          neighbourhood_perf = [NaN, NaN], printed_perf = NaN\<rparr>"
proof -
  have "hyperparameter_search rev centering_scaler toy_knn [1, 2, 3] [0, 0, 0::int] 3 [2, 1] =
     Inr \<lparr>best_neighbourhood = 1, best_k = 1, best_perf = Fin (-1),
          neighbourhood_perf = [Fin (-2), Fin (-1)], printed_perf = Fin (-1)\<rparr>"
    by code_simp
  moreover have "spec_select LowerIsBetter [-2, -1] = Inr 0"
    by (simp add: spec_select_def)
  moreover have "hyperparameter_search rev centering_scaler toy_knn [] ([]::int list) 0 [2, 1] =
     Inr \<lparr>best_neighbourhood = 0, best_k = 2, best_perf = NaN,
          neighbourhood_perf = [NaN, NaN], printed_perf = NaN\<rparr>"
    by code_simp
  ultimately show ?thesis by blast
qed

lemma search_empty_list:
  "hyperparameter_search shuffle S E X y n_folds [] =
     (if n_folds = 0 \<and> X \<noteq> [] then Inl ZeroDivisionError else Inl ValueError)"
  using fold_assignment_cases[of n_folds "length X" shuffle]
  by (auto simp: hyperparameter_search_def np_argmax_def)

text \<open>
  C9, as the code has it. With no candidate the search fails with the ValueError of
  \<open>np.argmax\<close> on an empty list (or, before that, with the ZeroDivisionError of
  line 230), never with EmptyCandidateListError. With at least one candidate, argmax
  and the two index operations cannot fail: the search completes, with a candidate of
  the list, whenever the fold construction and the loops complete, and when it fails the
  error is that of the fold construction or of a library call in the loops.
\<close>

theorem search_candidate_list_errors:
  "(ks = [] \<longrightarrow>
      hyperparameter_search shuffle S E X y n_folds ks =
        (if n_folds = 0 \<and> X \<noteq> [] then Inl ZeroDivisionError else Inl ValueError)) \<and>
   (ks \<noteq> [] \<longrightarrow>
      (\<forall>folds sc nperf.
         fold_assignment shuffle (length X) n_folds = Inr folds \<and>
         candidate_loop S E X y folds n_folds (sc_new S) ks [] = Inr (sc, nperf) \<longrightarrow>
         (\<exists>r. hyperparameter_search shuffle S E X y n_folds ks = Inr r \<and>
              best_k r \<in> set ks \<and> neighbourhood_perf r = nperf))) \<and>
   (ks \<noteq> [] \<longrightarrow>
      (\<forall>e. hyperparameter_search shuffle S E X y n_folds ks = Inl e \<longrightarrow>
         fold_assignment shuffle (length X) n_folds = Inl e \<or>
         (\<exists>folds. fold_assignment shuffle (length X) n_folds = Inr folds \<and>
            candidate_loop S E X y folds n_folds (sc_new S) ks [] = Inl e)))"
proof -
  have a: "\<exists>r. hyperparameter_search shuffle S E X y n_folds ks = Inr r \<and>
              best_k r \<in> set ks \<and> neighbourhood_perf r = nperf"
    if "ks \<noteq> []" "fold_assignment shuffle (length X) n_folds = Inr folds"
       "candidate_loop S E X y folds n_folds (sc_new S) ks [] = Inr (sc, nperf)"
    for folds sc nperf
  proof -
    from search_of_loop[OF that(2,3,1)] obtain b where
      b: "b < length ks"
      "hyperparameter_search shuffle S E X y n_folds ks =
       Inr \<lparr>best_neighbourhood = b, best_k = ks ! b, best_perf = nperf ! b,
          neighbourhood_perf = nperf, printed_perf = np_round (nperf ! b) 3\<rparr>"
      by blast
    then show ?thesis by simp
  qed
  have b: "fold_assignment shuffle (length X) n_folds = Inl e \<or>
         (\<exists>folds. fold_assignment shuffle (length X) n_folds = Inr folds \<and>
            candidate_loop S E X y folds n_folds (sc_new S) ks [] = Inl e)"
    if ne: "ks \<noteq> []" and e: "hyperparameter_search shuffle S E X y n_folds ks = Inl e" for e
  proof (cases "fold_assignment shuffle (length X) n_folds")
    case (Inl e')
    with e show ?thesis by (simp add: hyperparameter_search_def)
  next
    case fa: (Inr folds)
    show ?thesis
    proof (cases "candidate_loop S E X y folds n_folds (sc_new S) ks []")
      case (Inl e')
      with e fa show ?thesis by (simp add: hyperparameter_search_def)
    next
      case (Inr p)
      obtain sc nperf where "p = (sc, nperf)" by (cases p)
      with Inr a[OF ne fa, of sc nperf] e show ?thesis by simp
    qed
  qed
  from a b search_empty_list[of shuffle S E X y n_folds] show ?thesis by blast
qed

theorem search_candidate_list_errors_witness:
  "[1, 2, 1::int] \<noteq> [] \<and>
   fold_assignment rev (length [1, 2, 3::real]) 3 = Inr [2, 1, 0] \<and>
   candidate_loop centering_scaler toy_knn [1, 2, 3] [0, 0, 0::int] [2, 1, 0] 3
       (sc_new centering_scaler) [1, 2, 1] [] =
     Inr (5 / 2, [Fin (-1), Fin (-2), Fin (-1)]) \<and>
   (\<exists>r. hyperparameter_search rev centering_scaler toy_knn [1, 2, 3] [0, 0, 0::int] 3 [1, 2, 1] = Inr r \<and>
      best_k r \<in> set [1, 2, 1] \<and> neighbourhood_perf r = [Fin (-1), Fin (-2), Fin (-1)]) \<and>
   hyperparameter_search rev centering_scaler toy_knn [1, 2, 3] [0, 0, 0::int] 3 [] = Inl ValueError"
proof -
  have fa: "fold_assignment rev (length [1, 2, 3::real]) 3 = Inr [2, 1, 0]"
    by code_simp
  have cl: "candidate_loop centering_scaler toy_knn [1, 2, 3] [0, 0, 0::int] [2, 1, 0] 3
       (sc_new centering_scaler) [1, 2, 1] [] =
     Inr (5 / 2, [Fin (-1), Fin (-2), Fin (-1)])"
    by code_simp
  have ne: "[1, 2, 1::int] \<noteq> []" by simp
  note t = search_candidate_list_errors[of _ rev centering_scaler toy_knn "[1, 2, 3]"
      "[0, 0, 0::int]" 3]
  from t[of "[1, 2, 1]"] ne fa cl
  have 1: "\<exists>r. hyperparameter_search rev centering_scaler toy_knn [1, 2, 3] [0, 0, 0::int] 3 [1, 2, 1] = Inr r \<and>
      best_k r \<in> set [1, 2, 1] \<and> neighbourhood_perf r = [Fin (-1), Fin (-2), Fin (-1)]"
    by blast
  from t[of "[]"]
  have 2: "hyperparameter_search rev centering_scaler toy_knn [1, 2, 3] [0, 0, 0::int] 3 [] = Inl ValueError"
    by simp
  from ne fa cl 1 2 show ?thesis by blast
qed

text \<open>
  C9 as stated fails: on the empty candidate list the search raises ValueError, and on
  the one-candidate list \<open>[5]\<close> with three instances it does not complete (the learner
  rejects a neighbourhood larger than its training set).
\<close>

theorem search_empty_list_value_error:
  "hyperparameter_search rev centering_scaler toy_knn [1, 2, 3] [0, 0, 0::int] 3 [] = Inl ValueError \<and>
   hyperparameter_search rev centering_scaler toy_knn [1, 2, 3] [0, 0, 0::int] 3 [5] = Inl ValueError"
  by code_simp

subsection \<open>One fold assignment for all candidates\<close>

lemma candidate_score_cong:
  assumes "\<forall>Z t. est_fit E (est_new E k1) Z t = est_fit E (est_new E k2) Z t"
  shows "candidate_score S E X y folds n_folds k1 = candidate_score S E X y folds n_folds k2"
proof -
  have "search_fold_score S E X y folds k1 = search_fold_score S E X y folds k2"
    by (rule ext) (simp add: search_fold_score_def assms split: sum.splits prod.splits)
  then show ?thesis by (simp add: candidate_score_def)
qed

lemma search_scores:
  assumes "scaler_refits S" "is_shuffle shuffle" "length y = length X"
    "hyperparameter_search shuffle S E X y n_folds ks = Inr r"
  shows "\<exists>folds. fold_assignment shuffle (length X) n_folds = Inr folds \<and>
           mapM_err (candidate_score S E X y folds n_folds) ks = Inr (neighbourhood_perf r)"
proof -
  from assms(4) obtain folds sc nperf b where
    s: "fold_assignment shuffle (length X) n_folds = Inr folds"
    "candidate_loop S E X y folds n_folds (sc_new S) ks [] = Inr (sc, nperf)"
    "np_argmax nperf = Inr b" "b < length ks" "b < length nperf"
    "r = \<lparr>best_neighbourhood = b, best_k = ks ! b, best_perf = nperf ! b,
          neighbourhood_perf = nperf, printed_perf = np_round (nperf ! b) 3\<rparr>"
    by (rule search_Inr)
  have len: "length folds = length X"
    using assms(2) s(1) by (rule fold_assignment_length)
  from candidate_loop_mapM[OF assms(1) len assms(3), of E n_folds "sc_new S" ks "[]"] s(2)
  have "mapM_err (candidate_score S E X y folds n_folds) ks = Inr nperf"
    by (simp split: sum.splits)
  with s(1,6) show ?thesis by simp
qed

text \<open>
  C5. A search that completes has built one fold assignment, and the aggregate score
  it holds for every candidate is that candidate's mean score over the folds of this
  one assignment; so two candidates for which the learner fits identical models have
  identical aggregate scores. The scaler is one that refits, and \<open>y\<close> has the length
  of \<open>X\<close>.
\<close>

theorem search_fair:
  assumes "scaler_refits S" "is_shuffle shuffle" "length y = length X"
    "hyperparameter_search shuffle S E X y n_folds ks = Inr r"
  shows "\<exists>folds. fold_assignment shuffle (length X) n_folds = Inr folds \<and>
           (\<forall>j<length ks.
              candidate_score S E X y folds n_folds (ks ! j) = Inr (neighbourhood_perf r ! j)) \<and>
           (\<forall>a<length ks. \<forall>b<length ks.
              (\<forall>Z t. est_fit E (est_new E (ks ! a)) Z t = est_fit E (est_new E (ks ! b)) Z t) \<longrightarrow>
              neighbourhood_perf r ! a = neighbourhood_perf r ! b)"
proof -
  from search_scores[OF assms] obtain folds where
    f: "fold_assignment shuffle (length X) n_folds = Inr folds"
    "mapM_err (candidate_score S E X y folds n_folds) ks = Inr (neighbourhood_perf r)"
    by blast
  from mapM_err_Inr[OF f(2)] have
    sc: "\<forall>j<length ks. candidate_score S E X y folds n_folds (ks ! j) = Inr (neighbourhood_perf r ! j)"
    by simp
  have "neighbourhood_perf r ! a = neighbourhood_perf r ! b"
    if "a < length ks" "b < length ks"
      "\<forall>Z t. est_fit E (est_new E (ks ! a)) Z t = est_fit E (est_new E (ks ! b)) Z t" for a b
  proof -
    from sc that(1,2) have
      "candidate_score S E X y folds n_folds (ks ! a) = Inr (neighbourhood_perf r ! a)"
      "candidate_score S E X y folds n_folds (ks ! b) = Inr (neighbourhood_perf r ! b)"
      by simp_all
    with candidate_score_cong[OF that(3), of S X y folds n_folds] show ?thesis
      by simp
  qed
  with f(1) sc show ?thesis by blast
qed

theorem search_fair_witness:
  "scaler_refits centering_scaler \<and> is_shuffle rev \<and>
   length [0, 0, 0::int] = length [1, 2, 3::real] \<and>
   hyperparameter_search rev centering_scaler toy_knn [1, 2, 3] [0, 0, 0::int] 3 [1, 2, 1] =
     Inr \<lparr>best_neighbourhood = 0, best_k = 1, best_perf = Fin (-1),
          neighbourhood_perf = [Fin (-1), Fin (-2), Fin (-1)], printed_perf = Fin (-1)\<rparr> \<and>
   fold_assignment rev (length [1, 2, 3::real]) 3 = Inr [2, 1, 0] \<and>
   candidate_score centering_scaler toy_knn [1, 2, 3] [0, 0, 0::int] [2, 1, 0] 3 1 = Inr (Fin (-1))"
proof -
  let ?r = "\<lparr>best_neighbourhood = 0, best_k = 1, best_perf = Fin (-1),
          neighbourhood_perf = [Fin (-1), Fin (-2), Fin (-1)], printed_perf = Fin (-1)\<rparr>"
  have s: "hyperparameter_search rev centering_scaler toy_knn [1, 2, 3] [0, 0, 0::int] 3 [1, 2, 1] =
     Inr ?r"
    by code_simp
  have h: "length [0, 0, 0::int] = length [1, 2, 3::real]" by simp
  have fa: "fold_assignment rev (length [1, 2, 3::real]) 3 = Inr [2, 1, 0]"
    by code_simp
  from search_fair[OF refits_centering is_shuffle_rev h s] obtain folds where
    f: "fold_assignment rev (length [1, 2, 3::real]) 3 = Inr folds"
    and sc: "\<forall>j<length [1, 2, 1::int].
          candidate_score centering_scaler toy_knn [1, 2, 3] [0, 0, 0::int] folds 3
            ([1, 2, 1] ! j) = Inr (neighbourhood_perf ?r ! j)"
    by blast
  from f fa have "folds = [2, 1, 0]" by simp
  with sc[rule_format, of 0]
  have "candidate_score centering_scaler toy_knn [1, 2, 3] [0, 0, 0::int] [2, 1, 0] 3 1 =
          Inr (Fin (-1))"
    by simp
  with s fa h refits_centering is_shuffle_rev show ?thesis by blast
qed

subsection \<open>No leakage through the scaler\<close>

text \<open>
  C10. For a scaler that refits: whatever state the shared scaler is in when the inner
  loop starts for a candidate, the scores of the loop are, fold by fold, those computed
  with a scaler fitted on that fold's training rows and nothing else, the test rows being
  transformed by that scaler; and the aggregate scores of the outer loop are the means of
  these.
\<close>

theorem search_scaler_no_leak:
  assumes "scaler_refits S" "length folds = length X" "length y = length X"
  shows "drop_state (fold_loop S E X y folds k sc (py_range n_folds) []) =
           mapM_err (search_fold_score S E X y folds k) (py_range n_folds) \<and>
         drop_state (candidate_loop S E X y folds n_folds sc ks []) =
           mapM_err (candidate_score S E X y folds n_folds) ks"
proof -
  have "drop_state (fold_loop S E X y folds k sc (py_range n_folds) []) =
           mapM_err (search_fold_score S E X y folds k) (py_range n_folds)"
    using fold_loop_mapM[OF assms, of E k sc "py_range n_folds" "[]"]
    by (simp split: sum.splits)
  moreover have "drop_state (candidate_loop S E X y folds n_folds sc ks []) =
           mapM_err (candidate_score S E X y folds n_folds) ks"
    using candidate_loop_mapM[OF assms, of E n_folds sc ks "[]"]
    by (simp split: sum.splits)
  ultimately show ?thesis by blast
qed

theorem search_scaler_no_leak_witness:
  "scaler_refits centering_scaler \<and> length [2, 1, 0::int] = length [1, 2, 3::real] \<and>
   length [0, 0, 0::int] = length [1, 2, 3::real] \<and>
   fold_loop centering_scaler toy_knn [1, 2, 3] [0, 0, 0::int] [2, 1, 0] 1 7 (py_range 3) [] =
     Inr (5 / 2, [Fin (1 / 2), Fin (-1), Fin (- 5 / 2)]) \<and>
   mapM_err (search_fold_score centering_scaler toy_knn [1, 2, 3] [0, 0, 0::int] [2, 1, 0] 1)
       (py_range 3) = Inr [Fin (1 / 2), Fin (-1), Fin (- 5 / 2)] \<and>
   search_fold_score centering_scaler toy_knn [1, 2, 3] [0, 0, 0::int] [2, 1, 0] 1 0 =
     Inr (Fin (1 / 2))"
proof -
  have h: "length [2, 1, 0::int] = length [1, 2, 3::real]"
    "length [0, 0, 0::int] = length [1, 2, 3::real]" by simp_all
  have fl: "fold_loop centering_scaler toy_knn [1, 2, 3] [0, 0, 0::int] [2, 1, 0] 1 7 (py_range 3) [] =
     Inr (5 / 2, [Fin (1 / 2), Fin (-1), Fin (- 5 / 2)])"
    by code_simp
  have sf: "search_fold_score centering_scaler toy_knn [1, 2, 3] [0, 0, 0::int] [2, 1, 0] 1 0 =
     Inr (Fin (1 / 2))"
    by code_simp
  from search_scaler_no_leak[OF refits_centering h, of toy_knn 1 7 3] fl
  have "mapM_err (search_fold_score centering_scaler toy_knn [1, 2, 3] [0, 0, 0::int] [2, 1, 0] 1)
       (py_range 3) = Inr [Fin (1 / 2), Fin (-1), Fin (- 5 / 2)]"
    by simp
  with refits_centering h fl sf show ?thesis by blast
qed

end
